theory Spec2Isabelle
  imports Complex_Main "HOL-Library.Word"
begin

section \<open>EpubReader: the reader core of \<open>epubreader.py\<close>\<close>

text \<open>
  The development embeds the non-widget part of the class \<open>EpubReader\<close>: the progress
  table kept in \<open>reader.db\<close>, the loading of a book, the pagination of a chapter and
  the chapter and page navigation. Python's in-place mutation of \<open>self\<close> is explicit
  state passing: every method takes the reader and returns the reader it leaves
  behind, together with the way it ended (it returned, or an exception left it).
  A mutation done before an exception is raised stays in the returned reader, as
  it stays in the Python object.

  Strings and byte strings are character lists. Window layout, fonts and the file
  dialog are not modelled; of the chapter list widget only the labels are kept.
  During \<open>load_epub\<close> the signal \<open>currentRowChanged\<close> of that widget can reach
  \<open>load_chapter\<close> only with row \<open>-1\<close> (from \<open>clear\<close>) or while \<open>suppress_load\<close>
  is set (from \<open>setCurrentRow\<close>); both calls return at the first two guards of
  \<open>load_chapter\<close>, so the model leaves them out.
\<close>

subsection \<open>Exceptions and Python helpers\<close>

datatype exn =
    EpubException   \<comment> \<open>whatever \<open>epub.read_epub\<close> raises on an archive it cannot read\<close>
  | Sqlite3Error    \<comment> \<open>raised by \<open>sqlite3\<close> when the database cannot be used\<close>
  | OverflowError   \<comment> \<open>Python int too large to convert to SQLite INTEGER\<close>
  | IndexError      \<comment> \<open>list index out of range\<close>

datatype outcome = Returned | Raised exn

type_synonym bytes = string

text \<open>Python list indexing: a negative index counts from the end, anything else out
  of range raises.\<close>

definition py_index :: "'a list \<Rightarrow> int \<Rightarrow> exn + 'a" where
  "py_index xs i =
     (if 0 \<le> i \<and> i < int (length xs) then Inr (xs ! nat i)
      else if i < 0 \<and> - int (length xs) \<le> i then Inr (xs ! nat (int (length xs) + i))
      else Inl IndexError)"

text \<open>\<open>range(start, stop, step)\<close> for a positive step, as the list it iterates over.\<close>

function range3 :: "nat \<Rightarrow> nat \<Rightarrow> nat \<Rightarrow> nat list" where
  "range3 start stop step =
     (if step = 0 \<or> stop \<le> start then [] else start # range3 (start + step) stop step)"
  by pat_completeness auto
termination
  by (relation "measure (\<lambda>(start, stop, step). stop - start)") auto

declare range3.simps [simp del]

text \<open>\<open>text.replace("\n", "<br>")\<close>\<close>

definition replace_newlines :: "string \<Rightarrow> string" where
  "replace_newlines text = concat (map (\<lambda>c. if c = CHR 0x0A then ''<br>'' else [c]) text)"

text \<open>\<open>str.lower\<close> on ASCII letters (other characters are left as they are) and the
  substring test \<open>sub in s\<close>.\<close>

definition lower_char :: "char \<Rightarrow> char" where
  "lower_char c =
     (let n = (of_char c :: nat) in if 65 \<le> n \<and> n \<le> 90 then char_of (n + 32) else c)"

definition lower :: "string \<Rightarrow> string" where
  "lower s = map lower_char s"

fun contains :: "string \<Rightarrow> string \<Rightarrow> bool" where
  "contains sub [] = (sub = [])"
| "contains sub (c # cs) = (take (length sub) (c # cs) = sub \<or> contains sub cs)"

subsection \<open>The progress table\<close>

text \<open>
  The table \<open>progress (book_path TEXT PRIMARY KEY, chapter INTEGER, page INTEGER)\<close>
  is the list of its rows. An SQLite \<open>INTEGER\<close> is a signed 64-bit integer, so a
  row holds two 64-bit words. \<open>available\<close> says whether \<open>sqlite3\<close> can open the
  file and prepare the statement; when it cannot, \<open>connect\<close> or \<open>execute\<close> raises
  before any parameter is bound, and neither \<open>save_progress\<close> nor
  \<open>load_progress\<close> has a handler.
\<close>

type_synonym row = "string \<times> 64 word \<times> 64 word"

record database =
  available :: bool
  progress :: "row list"

text \<open>\<open>INSERT ... ON CONFLICT(book_path) DO UPDATE SET chapter, page\<close>\<close>

fun upsert :: "string \<Rightarrow> 64 word \<Rightarrow> 64 word \<Rightarrow> row list \<Rightarrow> row list" where
  "upsert k c p [] = [(k, c, p)]"
| "upsert k c p ((k', c', p') # rs) =
     (if k' = k then (k, c, p) # rs else (k', c', p') # upsert k c p rs)"

text \<open>\<open>SELECT chapter, page FROM progress WHERE book_path=?\<close> followed by \<open>fetchone\<close>\<close>

fun select_row :: "string \<Rightarrow> row list \<Rightarrow> (64 word \<times> 64 word) option" where
  "select_row k [] = None"
| "select_row k ((k', c, p) # rs) = (if k' = k then Some (c, p) else select_row k rs)"

text \<open>The Python integers that \<open>sqlite3\<close> can bind to a statement parameter; for any
  other it raises \<open>OverflowError\<close>.\<close>

definition sqlite_integer :: "int \<Rightarrow> bool" where
  "sqlite_integer i = (- (2 ^ 63) \<le> i \<and> i < 2 ^ 63)"

definition save_progress :: "database \<Rightarrow> string \<Rightarrow> int \<Rightarrow> int \<Rightarrow> exn + database" where
  "save_progress d book_path chapter page =
     (if available d then
        (if sqlite_integer chapter \<and> sqlite_integer page
         then Inr (d\<lparr>progress :=
                      upsert book_path (word_of_int chapter) (word_of_int page) (progress d)\<rparr>)
         else Inl OverflowError)
      else Inl Sqlite3Error)"

definition load_progress :: "database \<Rightarrow> string \<Rightarrow> exn + (int \<times> int)" where
  "load_progress d book_path =
     (if available d
      then Inr (case select_row book_path (progress d) of
                  Some (chapter, page) \<Rightarrow> (sint chapter, sint page)
                | None \<Rightarrow> (0, 0))
      else Inl Sqlite3Error)"

text \<open>The primary key: no two rows for one path.\<close>

definition primary_key :: "database \<Rightarrow> bool" where
  "primary_key d = distinct (map fst (progress d))"

subsection \<open>Pagination\<close>

definition page_size :: nat where
  "page_size = 2000"

definition paginate_chapter :: "string \<Rightarrow> string list" where
  "paginate_chapter text =
     map (\<lambda>i. take page_size (drop i text)) (range3 0 (length text) page_size)"

subsection \<open>The book and the reader state\<close>

datatype item_type = ITEM_COVER | ITEM_IMAGE | ITEM_DOCUMENT | ITEM_OTHER

record item =
  get_type :: item_type
  get_name :: string
  get_content :: bytes

text \<open>
  What the reader takes from outside: \<open>os.path.abspath\<close>, \<open>epub.read_epub\<close> (the
  items of the book in the order of \<open>get_items()\<close>, or an exception) and the text
  extraction \<open>BeautifulSoup(content).get_text(separator="\n", strip=True)\<close>.
\<close>

record env =
  abspath :: "string \<Rightarrow> string"
  read_epub :: "string \<Rightarrow> exn + item list"
  get_text :: "bytes \<Rightarrow> string"

datatype label = CoverPage | Chapter nat

text \<open>The content of the text view: nothing yet, the cover page built from the cover
  bytes, or a text page with its \<open>Page current / total\<close> footer.\<close>

datatype html = NoHtml | CoverHtml bytes | PageHtml string int int

record reader =
  chapters :: "string list"
  chapter_list :: "label list"
  pages :: "string list"
  current_chapter :: int
  current_page :: int
  cover_data :: "bytes option"
  current_book :: "string option"
  suppress_load :: bool
  text_view :: html
  db :: database

text \<open>The reader after \<open>__init__\<close>, over the table as \<open>init_database\<close> finds or
  creates it.\<close>

definition init_reader :: "database \<Rightarrow> reader" where
  "init_reader d =
     \<lparr>chapters = [], chapter_list = [], pages = [], current_chapter = 0, current_page = 0,
      cover_data = None, current_book = None, suppress_load = False, text_view = NoHtml,
      db = d\<rparr>"

text \<open>Truth value of \<open>None\<close>, a string or a byte string in a condition.\<close>

fun truthy :: "string option \<Rightarrow> bool" where
  "truthy None = False"
| "truthy (Some b) = (b \<noteq> [])"

subsection \<open>Loading a book\<close>

text \<open>The two cover loops of \<open>load_epub\<close>: the first item of type \<open>ITEM_COVER\<close>;
  if that leaves no (or empty) cover data, the first image whose name contains
  \<open>cover\<close>.\<close>

definition extract_cover :: "item list \<Rightarrow> bytes option" where
  "extract_cover book =
     (let c = map_option get_content (find (\<lambda>it. get_type it = ITEM_COVER) book)
      in if \<not> truthy c
         then (case find (\<lambda>it. get_type it = ITEM_IMAGE \<and> contains ''cover'' (lower (get_name it))) book of
                 Some it \<Rightarrow> Some (get_content it)
               | None \<Rightarrow> c)
         else c)"

text \<open>The chapter loop, over the items left to visit, with \<open>self.chapters\<close>, the
  labels and \<open>chapter_counter\<close> as they stand.\<close>

fun extract_chapters ::
  "(bytes \<Rightarrow> string) \<Rightarrow> item list \<Rightarrow> string list \<times> label list \<times> nat \<Rightarrow> string list \<times> label list \<times> nat" where
  "extract_chapters gt [] acc = acc"
| "extract_chapters gt (it # its) (chs, labs, chapter_counter) =
     (if get_type it = ITEM_DOCUMENT then
        (let text = gt (get_content it)
         in if text \<noteq> []
            then extract_chapters gt its (chs @ [text], labs @ [Chapter chapter_counter], chapter_counter + 1)
            else extract_chapters gt its (chs, labs, chapter_counter))
      else extract_chapters gt its (chs, labs, chapter_counter))"

subsection \<open>Chapter and page handling\<close>

definition display_page :: "reader \<Rightarrow> outcome \<times> reader" where
  "display_page s =
     (if pages s \<noteq> [] then
        (case py_index (pages s) (current_page s) of
           Inl e \<Rightarrow> (Raised e, s)
         | Inr text \<Rightarrow>
             (let s1 = s\<lparr>text_view :=
                          PageHtml (replace_newlines text) (current_page s + 1) (int (length (pages s)))\<rparr>
              in if truthy (current_book s1) then
                   (case save_progress (db s1) (the (current_book s1)) (current_chapter s1) (current_page s1) of
                      Inl e \<Rightarrow> (Raised e, s1)
                    | Inr d \<Rightarrow> (Returned, s1\<lparr>db := d\<rparr>))
                 else (Returned, s1)))
      else (Returned, s))"

text \<open>\<open>load_progress(self.current_book)\<close>; with \<open>current_book\<close> still \<open>None\<close> the
  parameter is SQL \<open>NULL\<close>, which equals no \<open>book_path\<close>, so no row is found.\<close>

definition load_progress_current :: "reader \<Rightarrow> exn + (int \<times> int)" where
  "load_progress_current s =
     (case current_book s of
        Some b \<Rightarrow> load_progress (db s) b
      | None \<Rightarrow> (if available (db s) then Inr (0, 0) else Inl Sqlite3Error))"

definition load_chapter :: "int \<Rightarrow> reader \<Rightarrow> outcome \<times> reader" where
  "load_chapter index s =
     (if suppress_load s then (Returned, s)
      else if index < 0 \<or> index \<ge> int (length (chapters s)) then (Returned, s)
      else
        (case (if truthy (current_book s)
               then save_progress (db s) (the (current_book s)) index 0
               else Inr (db s)) of
           Inl e \<Rightarrow> (Raised e, s)
         | Inr d \<Rightarrow>
             (let s1 = s\<lparr>db := d\<rparr>
              in if chapters s1 ! nat index = ''__COVER__'' \<and> truthy (cover_data s1) then
                   (Returned,
                    s1\<lparr>text_view := CoverHtml (the (cover_data s1)), pages := [],
                       current_chapter := index, current_page := 0\<rparr>)
                 else
                   (let s2 = s1\<lparr>current_chapter := index,
                                pages := paginate_chapter (chapters s1 ! nat index)\<rparr>
                    in case load_progress_current s2 of
                         Inl e \<Rightarrow> (Raised e, s2)
                       | Inr (_, saved_page) \<Rightarrow>
                           display_page
                             (s2\<lparr>current_page := min saved_page (int (length (pages s2)) - 1)\<rparr>)))))"

definition next_page :: "reader \<Rightarrow> outcome \<times> reader" where
  "next_page s =
     (if pages s \<noteq> [] \<and> current_page s < int (length (pages s)) - 1
      then display_page (s\<lparr>current_page := current_page s + 1\<rparr>)
      else (Returned, s))"

definition prev_page :: "reader \<Rightarrow> outcome \<times> reader" where
  "prev_page s =
     (if pages s \<noteq> [] \<and> current_page s > 0
      then display_page (s\<lparr>current_page := current_page s - 1\<rparr>)
      else (Returned, s))"

text \<open>
  \<open>load_epub\<close> in its three parts: the path is recorded and the archive read; the
  chapter list, the labels and the cover are rebuilt (\<open>assemble_book\<close>); the stored
  progress is restored (\<open>restore_progress\<close>).
\<close>

definition assemble_book :: "env \<Rightarrow> item list \<Rightarrow> reader \<Rightarrow> reader" where
  "assemble_book e book s0 =
     (let cover = extract_cover book;
          (chs, labs, _) = extract_chapters (get_text e) book ([], [], 1)
      in s0\<lparr>chapters := (if truthy cover then ''__COVER__'' # chs else chs),
            chapter_list := (if truthy cover then CoverPage # labs else labs),
            cover_data := cover\<rparr>)"

definition restore_progress :: "reader \<Rightarrow> outcome \<times> reader" where
  "restore_progress s1 =
     (case load_progress_current s1 of
        Inl x \<Rightarrow> (Raised x, s1)
      | Inr (chapter, page) \<Rightarrow>
          (let s2 = s1\<lparr>current_chapter := chapter, current_page := page,
                       suppress_load := False\<rparr>
           in case load_chapter chapter s2 of
                (Raised x, s3) \<Rightarrow> (Raised x, s3)
              | (Returned, s3) \<Rightarrow>
                  display_page (s3\<lparr>current_page := min page (int (length (pages s3)) - 1)\<rparr>)))"

definition load_epub :: "env \<Rightarrow> string \<Rightarrow> reader \<Rightarrow> outcome \<times> reader" where
  "load_epub e path s =
     (let s0 = s\<lparr>current_book := Some (abspath e path)\<rparr>
      in case read_epub e path of
           Inl x \<Rightarrow> (Raised x, s0)
         | Inr book \<Rightarrow> restore_progress (assemble_book e book s0))"

subsection \<open>Notions used to state the properties\<close>

text \<open>The texts of the document items that are not empty, in the order of the items.\<close>

definition nonempty_texts :: "(bytes \<Rightarrow> string) \<Rightarrow> item list \<Rightarrow> string list" where
  "nonempty_texts gt book =
     filter (\<lambda>t. t \<noteq> [])
       (map (\<lambda>it. gt (get_content it)) (filter (\<lambda>it. get_type it = ITEM_DOCUMENT) book))"

text \<open>The chapter list of a book: the cover marker, when the book has a cover, in
  front of those texts.\<close>

definition book_chapters :: "(bytes \<Rightarrow> string) \<Rightarrow> item list \<Rightarrow> string list" where
  "book_chapters gt book =
     (if truthy (extract_cover book) then ''__COVER__'' # nonempty_texts gt book
      else nonempty_texts gt book)"

text \<open>Concrete books, a usable table and an environment that reads a given book from
  any path, for the examples.\<close>

definition text_item :: "string \<Rightarrow> string \<Rightarrow> item" where
  "text_item name content = \<lparr>get_type = ITEM_DOCUMENT, get_name = name, get_content = content\<rparr>"

definition cover_item :: "string \<Rightarrow> bytes \<Rightarrow> item" where
  "cover_item name content = \<lparr>get_type = ITEM_COVER, get_name = name, get_content = content\<rparr>"

definition table :: "row list \<Rightarrow> database" where
  "table rs = \<lparr>available = True, progress = rs\<rparr>"

definition unusable :: "row list \<Rightarrow> database" where
  "unusable rs = \<lparr>available = False, progress = rs\<rparr>"

definition sample_env :: "item list \<Rightarrow> env" where
  "sample_env book =
     \<lparr>abspath = (\<lambda>p. CHR ''/'' # p), read_epub = (\<lambda>p. Inr book),
      get_text = (\<lambda>content. content)\<rparr>"

definition broken_env :: env where
  "broken_env =
     \<lparr>abspath = (\<lambda>p. CHR ''/'' # p), read_epub = (\<lambda>p. Inl EpubException),
      get_text = (\<lambda>content. content)\<rparr>"

section \<open>Pagination\<close>

subsection \<open>The index list of the comprehension\<close>

lemma range3_eq:
  "0 < step \<Longrightarrow> range3 start stop step = map (\<lambda>k. start + k * step) [0..<(stop - start + step - 1) div step]"
proof (induction start stop step rule: range3.induct)
  case (1 start stop step)
  show ?case
  proof (cases "stop \<le> start")
    case True
    with 1(2) show ?thesis by (simp add: range3.simps)
  next
    case False
    with 1(2) have n: "(stop - start + step - 1) div step = Suc ((stop - (start + step) + step - 1) div step)"
    proof -
      from False 1(2) have "stop - start + step - 1 = (stop - start - 1) + step" by simp
      then have "(stop - start + step - 1) div step = ((stop - start - 1) + step) div step"
        by (rule arg_cong)
      also have "\<dots> = Suc ((stop - start - 1) div step)"
        using 1(2) by (simp only: div_add_self2)
      finally have "(stop - start + step - 1) div step = Suc ((stop - start - 1) div step)" .
      moreover have "(stop - (start + step) + step - 1) div step = (stop - start - 1) div step"
      proof (cases "start + step \<le> stop")
        case True
        then have "stop - (start + step) + step - 1 = stop - start - 1" by simp
        then show ?thesis by simp
      next
        case F: False
        then have a: "stop - (start + step) + step - 1 = step - 1" by simp
        from F False have b: "stop - start - 1 < step" by simp
        show ?thesis using a b 1(2) by simp
      qed
      ultimately show ?thesis by simp
    qed
    from False 1(2) have "range3 start stop step = start # range3 (start + step) stop step"
      by (subst range3.simps) simp
    also have "range3 (start + step) stop step =
        map (\<lambda>k. start + step + k * step) [0..<(stop - (start + step) + step - 1) div step]"
      using 1(1)[OF _ 1(2)] False 1(2) by simp
    finally have r: "range3 start stop step =
        start # map (\<lambda>k. start + step + k * step) [0..<(stop - (start + step) + step - 1) div step]" .
    have "[0..<Suc m] = 0 # map Suc [0..<m]" for m
      by (simp add: upt_conv_Cons map_Suc_upt del: upt_Suc)
    then have "map (\<lambda>k. start + k * step) [0..<Suc m] =
        start # map (\<lambda>k. start + step + k * step) [0..<m]" for m
      by (simp add: comp_def add.assoc del: upt_Suc)
    with r show ?thesis
      unfolding n by simp
  qed
qed

lemma concat_range3:
  "0 < step \<Longrightarrow> concat (map (\<lambda>i. take step (drop i xs)) (range3 start (length xs) step)) = drop start xs"
proof (induction start "length xs" step rule: range3.induct)
  case (1 start step)
  show ?case
  proof (cases "length xs \<le> start")
    case True
    then show ?thesis by (simp add: range3.simps)
  next
    case False
    with 1(2) have "range3 start (length xs) step = start # range3 (start + step) (length xs) step"
      by (subst range3.simps) simp
    moreover have "concat (map (\<lambda>i. take step (drop i xs)) (range3 (start + step) (length xs) step)) = drop (start + step) xs"
      using 1(1) False 1(2) by simp
    moreover have "take step (drop start xs) @ drop (start + step) xs = drop start xs"
      by (metis add.commute append_take_drop_id drop_drop)
    ultimately show ?thesis by simp
  qed
qed


lemma paginate_chapter_eq:
  "paginate_chapter T =
     map (\<lambda>k. take page_size (drop (k * page_size) T)) [0..<(length T + page_size - 1) div page_size]"
  by (simp add: paginate_chapter_def range3_eq page_size_def comp_def)

lemma length_paginate_chapter:
  "length (paginate_chapter T) = (length T + 1999) div 2000"
  by (simp add: paginate_chapter_eq page_size_def)

lemma nth_paginate_chapter:
  "k < length (paginate_chapter T) \<Longrightarrow> paginate_chapter T ! k = take 2000 (drop (k * 2000) T)"
  by (simp add: paginate_chapter_eq page_size_def)

lemma ceil_div_2000: "nat \<lceil>real n / 2000\<rceil> = (n + 1999) div 2000"
proof -
  define q where "q = (n + 1999) div 2000"
  define r where "r = (n + 1999) mod 2000"
  have decomp: "n + 1999 = 2000 * q + r" and r: "r < 2000"
    by (simp_all add: q_def r_def)
  have "\<lceil>real n / 2000\<rceil> = int q"
  proof (rule ceiling_unique)
    from decomp r have "2000 * q < n + 2000" by linarith
    then have "real (2000 * q) < real (n + 2000)" by (simp only: of_nat_less_iff)
    then show "of_int (int q) - 1 < real n / 2000" by simp
    from decomp r have "n \<le> 2000 * q" by linarith
    then have "real n \<le> real (2000 * q)" by (simp only: of_nat_le_iff)
    then show "real n / 2000 \<le> of_int (int q)" by simp
  qed
  then show ?thesis by (simp add: q_def)
qed

lemma full_page:
  assumes "Suc k < length (paginate_chapter T)"
  shows "length (paginate_chapter T ! k) = 2000"
proof -
  from assms have "Suc k < (length T + 1999) div 2000" by (simp add: length_paginate_chapter)
  then have "Suc (Suc k) \<le> (length T + 1999) div 2000" by simp
  then have "Suc (Suc k) * 2000 \<le> length T + 1999"
    by (simp only: less_eq_div_iff_mult_less_eq [of 2000, simplified])
  then have "k * 2000 + 2000 \<le> length T" by simp
  moreover from assms have "paginate_chapter T ! k = take 2000 (drop (k * 2000) T)"
    by (simp add: nth_paginate_chapter)
  ultimately show ?thesis by simp
qed

lemma last_page:
  assumes "T \<noteq> []"
  shows "1 \<le> length (last (paginate_chapter T)) \<and> length (last (paginate_chapter T)) \<le> 2000"
proof -
  let ?n = "length (paginate_chapter T)"
  from assms have pos: "0 < length T" by simp
  have n: "?n = (length T + 1999) div 2000" by (rule length_paginate_chapter)
  from assms have "2000 \<le> length T + 1999" by (cases T) simp_all
  then have "0 < (length T + 1999) div 2000" by (simp only: div_greater_zero_iff) simp
  with n have npos: "0 < ?n" by simp
  then have ne: "paginate_chapter T \<noteq> []" by auto
  from npos have lt: "?n - 1 < ?n" by simp
  have "last (paginate_chapter T) = paginate_chapter T ! (?n - 1)"
    using ne by (rule last_conv_nth)
  also have "\<dots> = take 2000 (drop ((?n - 1) * 2000) T)"
    using lt by (rule nth_paginate_chapter)
  finally have l: "last (paginate_chapter T) = take 2000 (drop ((?n - 1) * 2000) T)" .
  have "?n * 2000 \<le> length T + 1999" unfolding n by (rule div_times_less_eq_dividend)
  moreover from npos have "?n * 2000 = (?n - 1) * 2000 + 2000" by (cases ?n) simp_all
  ultimately have "(?n - 1) * 2000 < length T" by linarith
  then show ?thesis unfolding l by simp
qed

lemma sizes_4001:
  assumes "length T = 4001"
  shows "map length (paginate_chapter T) = [2000, 2000, 1]"
proof -
  have "[0..<3] = [0, 1, 2]" by (simp add: upt_rec)
  then show ?thesis using assms
    by (simp add: paginate_chapter_eq page_size_def)
qed

text \<open>
  Claim C5. For every chapter text \<open>T\<close>, concatenating the pages of
  \<open>paginate_chapter T\<close> in page order gives \<open>T\<close> back: nothing is dropped,
  nothing is duplicated and no two pages overlap.
\<close>

theorem paginate_roundtrip: "concat (paginate_chapter T) = T"
  by (simp add: paginate_chapter_def page_size_def concat_range3)

theorem paginate_roundtrip_witness: "concat (paginate_chapter ''abc'') = ''abc''"
  using paginate_roundtrip [of "''abc''"] by simp

text \<open>
  Claim C6. With the page size 2000, a non-empty text of length \<open>L\<close> gives
  \<open>ceil(L / 2000)\<close> pages and the empty text gives none; every page before the last
  has exactly 2000 characters and the last has between 1 and 2000; a text of length
  4001 gives three pages of sizes 2000, 2000 and 1.
\<close>

theorem paginate_count_and_sizes:
  "length (paginate_chapter T) = (if 0 < length T then nat \<lceil>real (length T) / 2000\<rceil> else 0)
   \<and> (\<forall>k. Suc k < length (paginate_chapter T) \<longrightarrow> length (paginate_chapter T ! k) = 2000)
   \<and> (T \<noteq> [] \<longrightarrow> 1 \<le> length (last (paginate_chapter T)) \<and> length (last (paginate_chapter T)) \<le> 2000)
   \<and> (length T = 4001 \<longrightarrow> map length (paginate_chapter T) = [2000, 2000, 1])"
proof -
  have "length (paginate_chapter T) = (if 0 < length T then nat \<lceil>real (length T) / 2000\<rceil> else 0)"
    by (simp add: ceil_div_2000 length_paginate_chapter)
  moreover have "\<forall>k. Suc k < length (paginate_chapter T) \<longrightarrow> length (paginate_chapter T ! k) = 2000"
    using full_page by blast
  moreover have "T \<noteq> [] \<longrightarrow> 1 \<le> length (last (paginate_chapter T)) \<and> length (last (paginate_chapter T)) \<le> 2000"
    using last_page by blast
  moreover have "length T = 4001 \<longrightarrow> map length (paginate_chapter T) = [2000, 2000, 1]"
    using sizes_4001 by blast
  ultimately show ?thesis by blast
qed

theorem paginate_count_and_sizes_witness:
  "length (paginate_chapter (replicate 4001 (CHR ''a''))) = 3
   \<and> length (paginate_chapter (replicate 4001 (CHR ''a'')) ! 0) = 2000
   \<and> length (paginate_chapter (replicate 4001 (CHR ''a'')) ! 1) = 2000
   \<and> length (last (paginate_chapter (replicate 4001 (CHR ''a'')))) \<le> 2000
   \<and> map length (paginate_chapter (replicate 4001 (CHR ''a''))) = [2000, 2000, 1]"
proof -
  let ?T = "replicate 4001 (CHR ''a'')"
  have len: "length ?T = 4001" by simp
  have ne: "?T \<noteq> []" by simp
  have c: "nat \<lceil>real (4001::nat) / 2000\<rceil> = 3" by simp
  note t = paginate_count_and_sizes [of ?T]
  from t len c have n: "length (paginate_chapter ?T) = 3" by simp
  from t n have "length (paginate_chapter ?T ! 0) = 2000" "length (paginate_chapter ?T ! 1) = 2000"
    by simp_all
  moreover from t ne have "length (last (paginate_chapter ?T)) \<le> 2000" by blast
  moreover from t len have "map length (paginate_chapter ?T) = [2000, 2000, 1]" by blast
  ultimately show ?thesis using n by blast
qed

section \<open>The progress table\<close>

lemma select_upsert_same: "select_row k (upsert k c p rs) = Some (c, p)"
  by (induction rs) auto

lemma select_upsert_other: "k' \<noteq> k \<Longrightarrow> select_row k' (upsert k c p rs) = select_row k' rs"
  by (induction rs) auto

lemma keys_upsert:
  "map fst (upsert k c p rs) = (if k \<in> fst ` set rs then map fst rs else map fst rs @ [k])"
proof (induction rs)
  case Nil
  show ?case by simp
next
  case (Cons r rs)
  obtain k' c' p' where r: "r = (k', c', p')" by (cases r)
  show ?case
  proof (cases "k' = k")
    case True
    with r show ?thesis by simp
  next
    case False
    with r Cons.IH show ?thesis by auto
  qed
qed

lemma distinct_upsert: "distinct (map fst rs) \<Longrightarrow> distinct (map fst (upsert k c p rs))"
  by (simp add: keys_upsert)

lemma filter_absent: "k \<notin> set (map fst rs) \<Longrightarrow> filter (\<lambda>r. fst r = k) rs = []"
  by (induction rs) auto

lemma count_upsert:
  "distinct (map fst rs) \<Longrightarrow> length (filter (\<lambda>r. fst r = k) (upsert k c p rs)) = 1"
proof (induction rs)
  case Nil
  show ?case by simp
next
  case (Cons r rs)
  obtain k' c' p' where r: "r = (k', c', p')" by (cases r)
  show ?case
  proof (cases "k' = k")
    case True
    with Cons.prems r have "k \<notin> set (map fst rs)" by simp
    then have "filter (\<lambda>r. fst r = k) rs = []" by (rule filter_absent)
    with True r show ?thesis by simp
  next
    case False
    with Cons r show ?thesis by simp
  qed
qed

lemma upsert_idem: "upsert k c p (upsert k c p rs) = upsert k c p rs"
  by (induction rs) auto

lemma sint_word_of_int: "sqlite_integer i \<Longrightarrow> sint (word_of_int i :: 64 word) = i"
  by (simp add: sqlite_integer_def sint_sbintrunc' signed_take_bit_int_eq_self)

lemma sqlite_integer_sint: "sqlite_integer (sint (w :: 64 word))"
  unfolding sqlite_integer_def using sint_ge [of w] sint_lt [of w] by simp

lemma sqlite_integer_0: "sqlite_integer 0"
  by (simp add: sqlite_integer_def)

lemma save_progress_ok:
  "available d \<Longrightarrow> sqlite_integer c \<Longrightarrow> sqlite_integer p \<Longrightarrow>
   save_progress d k c p = Inr (d\<lparr>progress := upsert k (word_of_int c) (word_of_int p) (progress d)\<rparr>)"
  by (simp add: save_progress_def)

lemma save_progress_overflow:
  "available d \<Longrightarrow> \<not> (sqlite_integer c \<and> sqlite_integer p) \<Longrightarrow>
   save_progress d k c p = Inl OverflowError"
  by (simp add: save_progress_def)

lemma load_progress_range:
  assumes "load_progress d k = Inr (c, p)"
  shows "sqlite_integer c" and "sqlite_integer p"
  using assms
  by (auto simp: load_progress_def sqlite_integer_sint sqlite_integer_0
      split: if_splits option.splits prod.splits)

text \<open>
  Claim C9. On a usable table that respects its primary key, and for a chapter and
  a page that are SQLite integers (signed 64-bit), \<open>save_progress\<close> for a path
  followed at once by \<open>load_progress\<close> for that path returns the pair just written;
  after the write the table holds exactly one row for the path; a further write of
  such a pair for the path replaces the pair (the last write wins) and still leaves
  one row; writing the same pair again changes nothing. For a chapter or a page
  outside that range \<open>save_progress\<close> raises \<open>OverflowError\<close> and returns no table.
\<close>

theorem save_then_load:
  assumes "available d" and "primary_key d" and "sqlite_integer c" and "sqlite_integer p"
  shows "\<exists>d'. save_progress d path c p = Inr d'
           \<and> load_progress d' path = Inr (c, p)
           \<and> length (filter (\<lambda>r. fst r = path) (progress d')) = 1
           \<and> primary_key d'
           \<and> (\<forall>c2 p2. sqlite_integer c2 \<and> sqlite_integer p2 \<longrightarrow>
                  (\<exists>d2. save_progress d' path c2 p2 = Inr d2
                     \<and> load_progress d2 path = Inr (c2, p2)
                     \<and> length (filter (\<lambda>r. fst r = path) (progress d2)) = 1))
           \<and> save_progress d' path c p = Inr d'
           \<and> (\<forall>c3 p3. \<not> (sqlite_integer c3 \<and> sqlite_integer p3) \<longrightarrow>
                  save_progress d path c3 p3 = Inl OverflowError)"
proof -
  define d' where "d' = d\<lparr>progress := upsert path (word_of_int c) (word_of_int p) (progress d)\<rparr>"
  have av: "available d'" using assms(1) by (simp add: d'_def)
  have pk: "primary_key d'"
    using assms(2) by (simp add: d'_def primary_key_def distinct_upsert)
  have 1: "save_progress d path c p = Inr d'"
    using assms(1,3,4) by (simp add: save_progress_ok d'_def)
  have 2: "load_progress d' path = Inr (c, p)"
    using av assms(3,4)
    by (simp add: load_progress_def d'_def select_upsert_same sint_word_of_int)
  have 3: "length (filter (\<lambda>r. fst r = path) (progress d')) = 1"
    using assms(2) by (simp add: d'_def primary_key_def count_upsert)
  have 4: "\<exists>d2. save_progress d' path c2 p2 = Inr d2
              \<and> load_progress d2 path = Inr (c2, p2)
              \<and> length (filter (\<lambda>r. fst r = path) (progress d2)) = 1"
    if r: "sqlite_integer c2 \<and> sqlite_integer p2" for c2 p2
  proof (intro exI conjI)
    let ?d2 = "d'\<lparr>progress := upsert path (word_of_int c2) (word_of_int p2) (progress d')\<rparr>"
    show "save_progress d' path c2 p2 = Inr ?d2"
      using av r by (simp add: save_progress_ok)
    show "load_progress ?d2 path = Inr (c2, p2)"
      using av r by (simp add: load_progress_def select_upsert_same sint_word_of_int)
    show "length (filter (\<lambda>r. fst r = path) (progress ?d2)) = 1"
      using pk by (simp add: primary_key_def count_upsert)
  qed
  have 5: "save_progress d' path c p = Inr d'"
    using av assms(3,4) by (simp add: save_progress_ok) (simp add: d'_def upsert_idem)
  have 6: "save_progress d path c3 p3 = Inl OverflowError"
    if "\<not> (sqlite_integer c3 \<and> sqlite_integer p3)" for c3 p3
    using assms(1) that by (rule save_progress_overflow)
  from 1 2 3 pk 4 5 6 show ?thesis by blast
qed

theorem save_then_load_witness:
  "\<exists>d'. save_progress \<lparr>available = True, progress = [(''/a.epub'', 1, 2)]\<rparr> ''/a.epub'' 3 4 = Inr d'
      \<and> load_progress d' ''/a.epub'' = Inr (3, 4)
      \<and> length (filter (\<lambda>r. fst r = ''/a.epub'') (progress d')) = 1
      \<and> (\<exists>d2. save_progress d' ''/a.epub'' 5 6 = Inr d2 \<and> load_progress d2 ''/a.epub'' = Inr (5, 6))
      \<and> save_progress \<lparr>available = True, progress = [(''/a.epub'', 1, 2)]\<rparr> ''/a.epub''
            9223372036854775808 0 = Inl OverflowError"
proof -
  let ?d = "\<lparr>available = True, progress = [(''/a.epub'', 1, 2)]\<rparr>"
  have h: "available ?d" "primary_key ?d" "sqlite_integer 3" "sqlite_integer 4"
    by (simp_all add: primary_key_def sqlite_integer_def)
  have r: "sqlite_integer 5 \<and> sqlite_integer 6" by (simp add: sqlite_integer_def)
  have o: "\<not> (sqlite_integer 9223372036854775808 \<and> sqlite_integer 0)"
    by (simp add: sqlite_integer_def)
  from save_then_load [OF h, of "''/a.epub''"] r o show ?thesis by blast
qed

text \<open>
  A chapter index of \<open>2^63\<close> is not stored: \<open>save_progress\<close> raises, and
  \<open>load_progress\<close> on the table, which is as it was, does not return that pair.
\<close>

theorem save_overflow_counterexample:
  "save_progress (table []) ''/a.epub'' 9223372036854775808 0 = Inl OverflowError
   \<and> load_progress (table []) ''/a.epub'' = Inr (0, 0)"
  by (simp add: save_progress_def load_progress_def sqlite_integer_def table_def)

text \<open>
  Claim C10. \<open>save_progress\<close> for one path leaves what \<open>load_progress\<close> returns
  for every other path as it was, whether that other path has a row or not.
\<close>

theorem save_progress_frame:
  assumes "save_progress d path c p = Inr d'" and "path' \<noteq> path"
  shows "load_progress d' path' = load_progress d path'"
proof -
  from assms(1) have av: "available d"
    and d': "d' = d\<lparr>progress := upsert path (word_of_int c) (word_of_int p) (progress d)\<rparr>"
    by (auto simp: save_progress_def split: if_splits)
  from assms(2) show ?thesis
    by (simp add: load_progress_def d' select_upsert_other)
qed

theorem save_progress_frame_witness:
  "load_progress \<lparr>available = True, progress = [(''/a.epub'', 1, 2), (''/b.epub'', 3, 4)]\<rparr> ''/a.epub'' = Inr (1, 2)
   \<and> load_progress \<lparr>available = True, progress = [(''/a.epub'', 1, 2), (''/b.epub'', 5, 6)]\<rparr> ''/a.epub'' = Inr (1, 2)
   \<and> load_progress \<lparr>available = True, progress = [(''/a.epub'', 1, 2), (''/b.epub'', 5, 6)]\<rparr> ''/c.epub'' = Inr (0, 0)"
proof -
  let ?d = "\<lparr>available = True, progress = [(''/a.epub'', 1, 2), (''/b.epub'', 3, 4)]\<rparr>"
  let ?d' = "\<lparr>available = True, progress = [(''/a.epub'', 1, 2), (''/b.epub'', 5, 6)]\<rparr>"
  have s: "save_progress ?d ''/b.epub'' 5 6 = Inr ?d'"
    by (simp add: save_progress_def sqlite_integer_def)
  have n: "''/a.epub'' \<noteq> ''/b.epub''" and n': "''/c.epub'' \<noteq> ''/b.epub''" by simp_all
  have l: "load_progress ?d ''/a.epub'' = Inr (1, 2)" and l': "load_progress ?d ''/c.epub'' = Inr (0, 0)"
    by (simp_all add: load_progress_def)
  from save_progress_frame [OF s n] save_progress_frame [OF s n'] l l' show ?thesis by simp
qed

section \<open>Navigation and loading\<close>

lemma extract_chapters_eq:
  "extract_chapters gt its (chs, labs, n) =
     (chs @ nonempty_texts gt its,
      labs @ map Chapter [n..<n + length (nonempty_texts gt its)],
      n + length (nonempty_texts gt its))"
proof (induction its arbitrary: chs labs n)
  case Nil
  show ?case by (simp add: nonempty_texts_def)
next
  case (Cons it its)
  show ?case
  proof (cases "get_type it = ITEM_DOCUMENT \<and> gt (get_content it) \<noteq> []")
    case True
    then have t: "nonempty_texts gt (it # its) = gt (get_content it) # nonempty_texts gt its"
      by (simp add: nonempty_texts_def)
    have "[n..<n + Suc m] = n # [Suc n..<Suc n + m]" for m
      by (simp add: upt_conv_Cons del: upt_Suc)
    with True t Cons.IH show ?thesis by (simp del: upt_Suc)
  next
    case False
    then have t: "nonempty_texts gt (it # its) = nonempty_texts gt its"
      by (auto simp: nonempty_texts_def)
    from False t Cons.IH show ?thesis by auto
  qed
qed

lemma display_page_frame:
  "chapters (snd (display_page s)) = chapters s"
  "chapter_list (snd (display_page s)) = chapter_list s"
  "pages (snd (display_page s)) = pages s"
  "current_chapter (snd (display_page s)) = current_chapter s"
  "current_page (snd (display_page s)) = current_page s"
  "cover_data (snd (display_page s)) = cover_data s"
  "current_book (snd (display_page s)) = current_book s"
  "suppress_load (snd (display_page s)) = suppress_load s"
  by (simp_all add: display_page_def Let_def split: sum.splits)

lemma load_chapter_frame:
  "chapters (snd (load_chapter i s)) = chapters s"
  "chapter_list (snd (load_chapter i s)) = chapter_list s"
  "cover_data (snd (load_chapter i s)) = cover_data s"
  "current_book (snd (load_chapter i s)) = current_book s"
  by (simp_all add: load_chapter_def Let_def display_page_frame split: sum.splits prod.splits)

lemma restore_progress_frame:
  "chapters (snd (restore_progress s)) = chapters s"
  "chapter_list (snd (restore_progress s)) = chapter_list s"
  "cover_data (snd (restore_progress s)) = cover_data s"
  "current_book (snd (restore_progress s)) = current_book s"
proof -
  show "chapters (snd (restore_progress s)) = chapters s"
  proof (cases "load_progress_current s")
    case (Inl x)
    then show ?thesis by (simp add: restore_progress_def)
  next
    case (Inr cp)
    obtain c p where cp: "cp = (c, p)" by (cases cp)
    let ?s2 = "s\<lparr>current_chapter := c, current_page := p, suppress_load := False\<rparr>"
    obtain r s3 where l: "load_chapter c ?s2 = (r, s3)" by (cases "load_chapter c ?s2")
    from load_chapter_frame(1) [of c ?s2] l have "chapters s3 = chapters s" by simp
    with Inr cp l show ?thesis
      by (cases r) (simp_all add: restore_progress_def display_page_frame)
  qed
  show "chapter_list (snd (restore_progress s)) = chapter_list s"
  proof (cases "load_progress_current s")
    case (Inl x)
    then show ?thesis by (simp add: restore_progress_def)
  next
    case (Inr cp)
    obtain c p where cp: "cp = (c, p)" by (cases cp)
    let ?s2 = "s\<lparr>current_chapter := c, current_page := p, suppress_load := False\<rparr>"
    obtain r s3 where l: "load_chapter c ?s2 = (r, s3)" by (cases "load_chapter c ?s2")
    from load_chapter_frame(2) [of c ?s2] l have "chapter_list s3 = chapter_list s" by simp
    with Inr cp l show ?thesis
      by (cases r) (simp_all add: restore_progress_def display_page_frame)
  qed
  show "cover_data (snd (restore_progress s)) = cover_data s"
  proof (cases "load_progress_current s")
    case (Inl x)
    then show ?thesis by (simp add: restore_progress_def)
  next
    case (Inr cp)
    obtain c p where cp: "cp = (c, p)" by (cases cp)
    let ?s2 = "s\<lparr>current_chapter := c, current_page := p, suppress_load := False\<rparr>"
    obtain r s3 where l: "load_chapter c ?s2 = (r, s3)" by (cases "load_chapter c ?s2")
    from load_chapter_frame(3) [of c ?s2] l have "cover_data s3 = cover_data s" by simp
    with Inr cp l show ?thesis
      by (cases r) (simp_all add: restore_progress_def display_page_frame)
  qed
  show "current_book (snd (restore_progress s)) = current_book s"
  proof (cases "load_progress_current s")
    case (Inl x)
    then show ?thesis by (simp add: restore_progress_def)
  next
    case (Inr cp)
    obtain c p where cp: "cp = (c, p)" by (cases cp)
    let ?s2 = "s\<lparr>current_chapter := c, current_page := p, suppress_load := False\<rparr>"
    obtain r s3 where l: "load_chapter c ?s2 = (r, s3)" by (cases "load_chapter c ?s2")
    from load_chapter_frame(4) [of c ?s2] l have "current_book s3 = current_book s" by simp
    with Inr cp l show ?thesis
      by (cases r) (simp_all add: restore_progress_def display_page_frame)
  qed
qed

lemma assemble_book_fields:
  "chapters (assemble_book e book s) = book_chapters (get_text e) book"
  "chapter_list (assemble_book e book s) =
     (if truthy (extract_cover book) then [CoverPage] else []) @
     map Chapter [1..<Suc (length (nonempty_texts (get_text e) book))]"
  "cover_data (assemble_book e book s) = extract_cover book"
  "pages (assemble_book e book s) = pages s"
  "current_chapter (assemble_book e book s) = current_chapter s"
  "current_page (assemble_book e book s) = current_page s"
  "current_book (assemble_book e book s) = current_book s"
  "suppress_load (assemble_book e book s) = suppress_load s"
  "text_view (assemble_book e book s) = text_view s"
  "db (assemble_book e book s) = db s"
  by (simp_all add: assemble_book_def Let_def extract_chapters_eq book_chapters_def del: upt_Suc)

lemma load_epub_read:
  "read_epub e path = Inr book \<Longrightarrow>
   load_epub e path s = restore_progress (assemble_book e book (s\<lparr>current_book := Some (abspath e path)\<rparr>))"
  by (simp add: load_epub_def)

lemma load_epub_chapters:
  assumes "read_epub e path = Inr book"
  shows "chapters (snd (load_epub e path s)) = book_chapters (get_text e) book"
    and "chapter_list (snd (load_epub e path s)) =
          (if truthy (extract_cover book) then [CoverPage] else []) @
          map Chapter [1..<Suc (length (nonempty_texts (get_text e) book))]"
    and "cover_data (snd (load_epub e path s)) = extract_cover book"
  by (simp_all only: load_epub_read [OF assms] restore_progress_frame assemble_book_fields)

text \<open>
  Claim C7. An invalid navigation request is a silent no-op and never an error:
  \<open>load_chapter\<close> with an index outside \<open>[0, len(chapters))\<close> returns and leaves
  the whole reader, the progress table included, as it was; so does \<open>next_page\<close>
  on the last page of the chapter and \<open>prev_page\<close> on its first page.
\<close>

theorem invalid_navigation_noop:
  "(index < 0 \<or> int (length (chapters s)) \<le> index \<longrightarrow> load_chapter index s = (Returned, s))
   \<and> (current_page s = int (length (pages s)) - 1 \<longrightarrow> next_page s = (Returned, s))
   \<and> (current_page s = 0 \<longrightarrow> prev_page s = (Returned, s))"
  by (simp add: load_chapter_def next_page_def prev_page_def)


theorem invalid_navigation_noop_witness:
  "load_chapter 5 ((init_reader (table [])) \<lparr>chapters := [''abc''], pages := [''abc'']\<rparr>)
     = (Returned, (init_reader (table [])) \<lparr>chapters := [''abc''], pages := [''abc'']\<rparr>)
   \<and> next_page ((init_reader (table [])) \<lparr>chapters := [''abc''], pages := [''abc'']\<rparr>)
     = (Returned, (init_reader (table [])) \<lparr>chapters := [''abc''], pages := [''abc'']\<rparr>)
   \<and> prev_page ((init_reader (table [])) \<lparr>chapters := [''abc''], pages := [''abc'']\<rparr>)
     = (Returned, (init_reader (table [])) \<lparr>chapters := [''abc''], pages := [''abc'']\<rparr>)"
proof -
  let ?s = "(init_reader (table [])) \<lparr>chapters := [''abc''], pages := [''abc'']\<rparr>"
  have "(5::int) < 0 \<or> int (length (chapters ?s)) \<le> 5" by simp
  moreover have "current_page ?s = int (length (pages ?s)) - 1" by (simp add: init_reader_def)
  moreover have "current_page ?s = 0" by (simp add: init_reader_def)
  ultimately show ?thesis using invalid_navigation_noop [of 5 ?s] by blast
qed

text \<open>
  Claim C8. When the archive is read, the chapter list \<open>load_epub\<close> leaves is the
  cover marker (if a cover was found) followed by exactly the non-empty section
  texts, in the order of the sections: a section with empty text takes no index, the
  \<open>k\<close>-th surviving text sits at index \<open>k\<close> (at \<open>k + 1\<close> behind a cover), and
  the labels number the surviving texts from 1 without a gap.
\<close>

theorem chapters_dense:
  assumes "read_epub e path = Inr book"
  shows "chapters (snd (load_epub e path s)) =
           (if truthy (extract_cover book) then [''__COVER__''] else []) @ nonempty_texts (get_text e) book
         \<and> (\<forall>k < length (nonempty_texts (get_text e) book).
               chapters (snd (load_epub e path s)) ! ((if truthy (extract_cover book) then 1 else 0) + k)
                 = nonempty_texts (get_text e) book ! k)
         \<and> length (chapters (snd (load_epub e path s))) =
               (if truthy (extract_cover book) then 1 else 0) + length (nonempty_texts (get_text e) book)
         \<and> chapter_list (snd (load_epub e path s)) =
               (if truthy (extract_cover book) then [CoverPage] else []) @
               map Chapter [1..<Suc (length (nonempty_texts (get_text e) book))]"
  using load_epub_chapters(1,2) [OF assms, of s]
  by (simp add: book_chapters_def del: upt_Suc)


theorem chapters_dense_witness:
  "chapters (snd (load_epub
      (sample_env [cover_item ''cover.jpg'' ''JPEG'', text_item ''a.xhtml'' ''One'',
                   text_item ''b.xhtml'' [], text_item ''c.xhtml'' [],
                   text_item ''d.xhtml'' ''Two''])
      ''book.epub'' (init_reader (table [])))) = [''__COVER__'', ''One'', ''Two'']
   \<and> chapters (snd (load_epub
      (sample_env [cover_item ''cover.jpg'' ''JPEG'', text_item ''a.xhtml'' ''One'',
                   text_item ''b.xhtml'' [], text_item ''c.xhtml'' [],
                   text_item ''d.xhtml'' ''Two''])
      ''book.epub'' (init_reader (table [])))) ! 2 = ''Two''
   \<and> chapter_list (snd (load_epub
      (sample_env [cover_item ''cover.jpg'' ''JPEG'', text_item ''a.xhtml'' ''One'',
                   text_item ''b.xhtml'' [], text_item ''c.xhtml'' [],
                   text_item ''d.xhtml'' ''Two''])
      ''book.epub'' (init_reader (table [])))) = [CoverPage, Chapter 1, Chapter 2]"
proof -
  let ?book = "[cover_item ''cover.jpg'' ''JPEG'', text_item ''a.xhtml'' ''One'',
                text_item ''b.xhtml'' [], text_item ''c.xhtml'' [],
                text_item ''d.xhtml'' ''Two'']"
  have r: "read_epub (sample_env ?book) ''book.epub'' = Inr ?book"
    by (simp add: sample_env_def)
  have c: "truthy (extract_cover ?book)"
    by (simp add: extract_cover_def cover_item_def text_item_def)
  have t: "nonempty_texts (get_text (sample_env ?book)) ?book = [''One'', ''Two'']"
    by (simp add: nonempty_texts_def sample_env_def cover_item_def text_item_def)
  have u: "[1..<Suc 2] = [1, 2]" by (simp add: upt_rec)
  from chapters_dense [OF r, of "init_reader (table [])"] c t u show ?thesis by simp
qed

section \<open>Opening a book\<close>

lemma py_index_in_range:
  "0 \<le> i \<Longrightarrow> i < int (length xs) \<Longrightarrow> py_index xs i = Inr (xs ! nat i)"
  by (simp add: py_index_def)

lemma paginate_chapter_nonempty: "T \<noteq> [] \<Longrightarrow> paginate_chapter T \<noteq> []"
proof -
  assume "T \<noteq> []"
  then have "2000 \<le> length T + 1999" by (cases T) simp_all
  then have "0 < (length T + 1999) div 2000" by (simp only: div_greater_zero_iff) simp
  then have "0 < length (paginate_chapter T)" by (simp only: length_paginate_chapter)
  then show ?thesis by auto
qed

lemma sqlite_integer_between:
  "sqlite_integer lo \<Longrightarrow> sqlite_integer hi \<Longrightarrow> lo \<le> i \<Longrightarrow> i \<le> hi \<Longrightarrow> sqlite_integer i"
  by (simp add: sqlite_integer_def)

lemma load_progress_current_range:
  assumes "load_progress_current s = Inr (c, p)"
  shows "sqlite_integer c" and "sqlite_integer p"
proof -
  have "sqlite_integer c \<and> sqlite_integer p"
  proof (cases "current_book s")
    case None
    with assms show ?thesis
      by (auto simp: load_progress_current_def sqlite_integer_0 split: if_splits)
  next
    case (Some b)
    with assms have "load_progress (db s) b = Inr (c, p)"
      by (simp add: load_progress_current_def)
    then show ?thesis by (simp add: load_progress_range)
  qed
  then show "sqlite_integer c" and "sqlite_integer p" by simp_all
qed

text \<open>\<open>display_page\<close> returns whenever the page index is one Python accepts for the
  page list and the table takes the write.\<close>

lemma display_page_returns:
  assumes "pages s = [] \<or> (- int (length (pages s)) \<le> current_page s
                              \<and> current_page s < int (length (pages s)))"
    and "available (db s)"
    and "sqlite_integer (current_chapter s)" and "sqlite_integer (current_page s)"
  shows "fst (display_page s) = Returned" and "available (db (snd (display_page s)))"
  using assms
  by (auto simp: display_page_def py_index_def Let_def save_progress_def)

lemma display_page_usable:
  assumes "pages s \<noteq> []" and "0 \<le> current_page s" and "current_page s < int (length (pages s))"
    and "available (db s)"
    and "sqlite_integer (current_chapter s)" and "sqlite_integer (current_page s)"
  shows "fst (display_page s) = Returned" and "available (db (snd (display_page s)))"
  using assms
  by (simp_all add: display_page_def py_index_in_range Let_def save_progress_def)

lemma display_page_unusable:
  assumes "pages s \<noteq> []" and "0 \<le> current_page s" and "current_page s < int (length (pages s))"
    and "\<not> available (db s)" and "truthy (current_book s)"
  shows "display_page s =
           (Raised Sqlite3Error,
            s\<lparr>text_view := PageHtml (replace_newlines (pages s ! nat (current_page s)))
                               (current_page s + 1) (int (length (pages s)))\<rparr>)"
  using assms
  by (simp add: display_page_def py_index_in_range Let_def save_progress_def)

lemma load_chapter_text:
  assumes ns: "\<not> suppress_load s"
    and lo: "0 \<le> c" and hi: "c < int (length (chapters s))"
    and ci: "sqlite_integer c"
    and nc: "\<not> (chapters s ! nat c = ''__COVER__'' \<and> truthy (cover_data s))"
    and ne: "chapters s ! nat c \<noteq> []"
    and av: "available (db s)"
    and sp: "load_progress_current s = Inr (c', q)" and q: "0 \<le> q"
  shows "fst (load_chapter c s) = Returned"
    and "pages (snd (load_chapter c s)) = paginate_chapter (chapters s ! nat c)"
    and "current_chapter (snd (load_chapter c s)) = c"
    and "available (db (snd (load_chapter c s)))"
proof -
  let ?P = "paginate_chapter (chapters s ! nat c)"
  from ne have pne: "?P \<noteq> []" by (rule paginate_chapter_nonempty)
  then have len: "0 < length ?P" by simp
  from sp have qi: "sqlite_integer q" by (rule load_progress_current_range(2))
  define d where "d = (if truthy (current_book s)
      then (db s)\<lparr>progress := upsert (the (current_book s)) (word_of_int c) (word_of_int 0)
                                 (progress (db s))\<rparr>
      else db s)"
  have avd: "available d" using av by (simp add: d_def)
  have sv_d: "(if truthy (current_book s)
               then save_progress (db s) (the (current_book s)) c 0 else Inr (db s)) = Inr d"
    using av ci by (simp add: d_def save_progress_ok sqlite_integer_0)
  let ?s2 = "s\<lparr>db := d, current_chapter := c, pages := ?P\<rparr>"
  obtain sv where sv: "load_progress_current ?s2 = Inr (c, sv) \<or> load_progress_current ?s2 = Inr (c', sv)"
    and sv0: "0 \<le> sv" and svi: "sqlite_integer sv"
  proof (cases "truthy (current_book s)")
    case True
    then obtain b where b: "current_book s = Some b" by (cases "current_book s") simp_all
    with True av ci have "load_progress_current ?s2 = Inr (c, 0)"
      by (simp add: load_progress_current_def load_progress_def d_def select_upsert_same
          sint_word_of_int)
    then show ?thesis using that [of 0] by (simp add: sqlite_integer_0)
  next
    case False
    then have "load_progress_current ?s2 = load_progress_current s"
      by (simp add: load_progress_current_def d_def split: option.splits)
    with sp q qi show ?thesis using that [of q] by simp
  qed
  let ?s3 = "?s2\<lparr>current_page := min sv (int (length ?P) - 1)\<rparr>"
  have step: "load_chapter c s = display_page ?s3"
    using ns lo hi nc sv sv_d
    by (auto simp: load_chapter_def Let_def)
  have r1: "pages ?s3 \<noteq> []" using pne by simp
  have r2: "0 \<le> current_page ?s3" using sv0 len by simp
  have r3: "current_page ?s3 < int (length (pages ?s3))" by simp
  have r4: "available (db ?s3)" using avd by simp
  have r5: "sqlite_integer (current_chapter ?s3)" using ci by simp
  have "current_page ?s3 \<le> sv" by simp
  with r2 have r6: "sqlite_integer (current_page ?s3)"
    by (rule sqlite_integer_between [OF sqlite_integer_0 svi])
  show "fst (load_chapter c s) = Returned"
    unfolding step by (rule display_page_usable(1) [OF r1 r2 r3 r4 r5 r6])
  show "available (db (snd (load_chapter c s)))"
    unfolding step by (rule display_page_usable(2) [OF r1 r2 r3 r4 r5 r6])
  show "pages (snd (load_chapter c s)) = ?P"
    unfolding step by (simp add: display_page_frame)
  show "current_chapter (snd (load_chapter c s)) = c"
    unfolding step by (simp add: display_page_frame)
qed

lemma book_chapters_nonempty: "t \<in> set (book_chapters gt book) \<Longrightarrow> t \<noteq> []"
  by (auto simp: book_chapters_def nonempty_texts_def split: if_splits)

lemma load_progress_current_assembled:
  "load_progress_current (assemble_book e book (s\<lparr>current_book := Some b\<rparr>)) = load_progress (db s) b"
  by (simp add: load_progress_current_def assemble_book_fields)

lemma load_progress_current_cong:
  "current_book s' = current_book s \<Longrightarrow> db s' = db s \<Longrightarrow>
   load_progress_current s' = load_progress_current s"
  by (cases "current_book s") (simp_all add: load_progress_current_def)

lemma load_chapter_out_of_range:
  "index < 0 \<or> int (length (chapters s)) \<le> index \<Longrightarrow> load_chapter index s = (Returned, s)"
  by (simp add: load_chapter_def)

lemma load_progress_available: "load_progress d k = Inr r \<Longrightarrow> available d"
  by (simp add: load_progress_def split: if_splits)

text \<open>
  Claim C2. \<open>load_epub\<close> restores the stored pair \<open>(c, p)\<close> as follows. When \<open>c\<close>
  is the index of a text chapter of the book just read and \<open>p\<close> is not negative, it
  returns normally with \<open>c\<close> as the current chapter, the pages of that chapter as
  the pages, and \<open>min p (page count - 1)\<close> as the current page, which lies in
  \<open>[0, page count)\<close>. The page index is clamped from above; the chapter index is
  taken as it was stored, which is why it is assumed to be in range here.
\<close>

theorem open_restores_progress:
  assumes rd: "read_epub e path = Inr book"
    and lp: "load_progress (db s) (abspath e path) = Inr (c, p)"
    and lo: "0 \<le> c" and hi: "c < int (length (book_chapters (get_text e) book))"
    and nc: "\<not> (book_chapters (get_text e) book ! nat c = ''__COVER__'' \<and> truthy (extract_cover book))"
    and p0: "0 \<le> p"
  shows "fst (load_epub e path s) = Returned
         \<and> current_chapter (snd (load_epub e path s)) = c
         \<and> pages (snd (load_epub e path s)) = paginate_chapter (book_chapters (get_text e) book ! nat c)
         \<and> current_page (snd (load_epub e path s)) =
               min p (int (length (pages (snd (load_epub e path s)))) - 1)
         \<and> 0 \<le> current_page (snd (load_epub e path s))
         \<and> current_page (snd (load_epub e path s)) < int (length (pages (snd (load_epub e path s))))"
proof -
  let ?chs = "book_chapters (get_text e) book"
  let ?P = "paginate_chapter (?chs ! nat c)"
  let ?s1 = "assemble_book e book (s\<lparr>current_book := Some (abspath e path)\<rparr>)"
  let ?s2 = "?s1\<lparr>current_chapter := c, current_page := p, suppress_load := False\<rparr>"
  from lp have av: "available (db s)" by (rule load_progress_available)
  from lp have ci: "sqlite_integer c" and pi: "sqlite_integer p"
    by (rule load_progress_range)+
  have l1: "load_progress_current ?s1 = Inr (c, p)"
    using lp by (simp only: load_progress_current_assembled)
  have ch2: "chapters ?s2 = ?chs" by (simp add: assemble_book_fields)
  have cv2: "cover_data ?s2 = extract_cover book" by (simp add: assemble_book_fields)
  have l2: "load_progress_current ?s2 = Inr (c, p)"
    using l1 load_progress_current_cong [of ?s2 ?s1] by simp
  from lo hi have "?chs ! nat c \<in> set ?chs" by simp
  then have ne: "chapters ?s2 ! nat c \<noteq> []"
    unfolding ch2 by (rule book_chapters_nonempty)
  then have pne: "?P \<noteq> []" unfolding ch2 by (rule paginate_chapter_nonempty)
  have a1: "\<not> suppress_load ?s2" by simp
  have a2: "c < int (length (chapters ?s2))" using hi by (simp only: ch2)
  have a3: "\<not> (chapters ?s2 ! nat c = ''__COVER__'' \<and> truthy (cover_data ?s2))"
    unfolding ch2 cv2 by (rule nc)
  have a4: "available (db ?s2)" using av by (simp add: assemble_book_fields)
  note lc = load_chapter_text [OF a1 lo a2 ci a3 ne a4 l2 p0]
  obtain s3 where s3: "load_chapter c ?s2 = (Returned, s3)"
    using lc(1) by (cases "load_chapter c ?s2") simp
  from lc(2) s3 have pg3: "pages s3 = ?P" by (simp add: ch2)
  from lc(3) s3 have cc3: "current_chapter s3 = c" by simp
  from lc(4) s3 have av3: "available (db s3)" by simp
  let ?s4 = "s3\<lparr>current_page := min p (int (length (pages s3)) - 1)\<rparr>"
  have step: "load_epub e path s = display_page ?s4"
    using rd l1 s3 by (simp add: load_epub_def restore_progress_def)
  from pne have len: "0 < length ?P" by simp
  have r1: "pages ?s4 \<noteq> []" using pne pg3 by simp
  have r2: "0 \<le> current_page ?s4" using p0 len pg3 by simp
  have r3: "current_page ?s4 < int (length (pages ?s4))" by simp
  have r4: "available (db ?s4)" using av3 by simp
  have r5: "sqlite_integer (current_chapter ?s4)" using ci cc3 by simp
  have "current_page ?s4 \<le> p" by simp
  with r2 have r6: "sqlite_integer (current_page ?s4)"
    by (rule sqlite_integer_between [OF sqlite_integer_0 pi])
  have "fst (load_epub e path s) = Returned"
    unfolding step by (rule display_page_usable(1) [OF r1 r2 r3 r4 r5 r6])
  moreover have "current_chapter (snd (load_epub e path s)) = c"
    unfolding step using cc3 by (simp add: display_page_frame)
  moreover have pg: "pages (snd (load_epub e path s)) = ?P"
    unfolding step using pg3 by (simp add: display_page_frame)
  moreover have cp: "current_page (snd (load_epub e path s)) = min p (int (length ?P) - 1)"
    unfolding step using pg3 by (simp add: display_page_frame)
  moreover from cp p0 len have "0 \<le> current_page (snd (load_epub e path s))" by simp
  moreover from cp have "current_page (snd (load_epub e path s)) < int (length ?P)" by simp
  ultimately show ?thesis by (simp only: pg)
qed

theorem open_restores_progress_witness:
  "fst (load_epub (sample_env [text_item ''a.xhtml'' ''One'']) ''book.epub''
          (init_reader (table [(''/book.epub'', 0, 3)]))) = Returned
   \<and> current_chapter (snd (load_epub (sample_env [text_item ''a.xhtml'' ''One'']) ''book.epub''
          (init_reader (table [(''/book.epub'', 0, 3)])))) = 0
   \<and> 0 \<le> current_page (snd (load_epub (sample_env [text_item ''a.xhtml'' ''One'']) ''book.epub''
          (init_reader (table [(''/book.epub'', 0, 3)]))))"
proof -
  let ?book = "[text_item ''a.xhtml'' ''One'']"
  let ?e = "sample_env ?book"
  let ?s = "init_reader (table [(''/book.epub'', 0, 3)])"
  have chs: "book_chapters (get_text ?e) ?book = [''One'']"
    by (simp add: book_chapters_def nonempty_texts_def extract_cover_def sample_env_def text_item_def)
  have rd: "read_epub ?e ''book.epub'' = Inr ?book" by (simp add: sample_env_def)
  have lp: "load_progress (db ?s) (abspath ?e ''book.epub'') = Inr (0, 3)"
    by (simp add: load_progress_def init_reader_def table_def sample_env_def)
  have lo: "(0::int) \<le> 0" by simp
  have hi: "0 < int (length (book_chapters (get_text ?e) ?book))" by (simp add: chs)
  have nc: "\<not> (book_chapters (get_text ?e) ?book ! nat 0 = ''__COVER__'' \<and> truthy (extract_cover ?book))"
    by (simp add: chs)
  have p0: "(0::int) \<le> 3" by simp
  from open_restores_progress [OF rd lp lo hi nc p0] show ?thesis by blast
qed

text \<open>
  A stored chapter index that is out of range stays out of range: with the row
  \<open>(5, 0)\<close> and a book of one chapter, \<open>load_chapter 5\<close> returns at its index guard
  and \<open>load_epub\<close> ends with \<open>current_chapter = 5\<close>.
\<close>

theorem open_keeps_stored_chapter_counterexample:
  "fst (load_epub (sample_env [text_item ''a.xhtml'' ''One'']) ''book.epub''
          (init_reader (table [(''/book.epub'', 5, 0)]))) = Returned
   \<and> length (chapters (snd (load_epub (sample_env [text_item ''a.xhtml'' ''One'']) ''book.epub''
          (init_reader (table [(''/book.epub'', 5, 0)]))))) = 1
   \<and> current_chapter (snd (load_epub (sample_env [text_item ''a.xhtml'' ''One'']) ''book.epub''
          (init_reader (table [(''/book.epub'', 5, 0)])))) = 5"
  by (simp add: load_epub_def restore_progress_def assemble_book_def load_progress_current_def
      load_progress_def load_chapter_def display_page_def sample_env_def table_def
      init_reader_def text_item_def extract_cover_def Let_def)

text \<open>
  Claim C3. A book with a cover and one text chapter is opened with no stored
  progress. The cover is chapter 0, the text chapter is chapter 1, the cover is what
  is displayed and there are no pages; but the current page is \<open>-1\<close>, not \<open>0\<close>:
  the cover branch of \<open>load_chapter\<close> sets it to \<open>0\<close>, and \<open>load_epub\<close> then
  overwrites it with \<open>min(page, len(self.pages) - 1) = min(0, -1)\<close>.
\<close>

theorem open_on_cover_page_index:
  "fst (load_epub (sample_env [cover_item ''cover.jpg'' ''JPEG'', text_item ''a.xhtml'' ''One''])
          ''book.epub'' (init_reader (table []))) = Returned
   \<and> chapters (snd (load_epub (sample_env [cover_item ''cover.jpg'' ''JPEG'', text_item ''a.xhtml'' ''One''])
          ''book.epub'' (init_reader (table [])))) = [''__COVER__'', ''One'']
   \<and> current_chapter (snd (load_epub (sample_env [cover_item ''cover.jpg'' ''JPEG'', text_item ''a.xhtml'' ''One''])
          ''book.epub'' (init_reader (table [])))) = 0
   \<and> text_view (snd (load_epub (sample_env [cover_item ''cover.jpg'' ''JPEG'', text_item ''a.xhtml'' ''One''])
          ''book.epub'' (init_reader (table [])))) = CoverHtml ''JPEG''
   \<and> pages (snd (load_epub (sample_env [cover_item ''cover.jpg'' ''JPEG'', text_item ''a.xhtml'' ''One''])
          ''book.epub'' (init_reader (table [])))) = []
   \<and> current_page (snd (load_epub (sample_env [cover_item ''cover.jpg'' ''JPEG'', text_item ''a.xhtml'' ''One''])
          ''book.epub'' (init_reader (table [])))) = - 1"
  by (simp add: load_epub_def restore_progress_def assemble_book_def load_progress_current_def
      load_progress_def save_progress_def sqlite_integer_def load_chapter_def display_page_def
      sample_env_def table_def init_reader_def text_item_def cover_item_def extract_cover_def
      Let_def)

text \<open>
  Claim C4. When \<open>epub.read_epub\<close> raises, \<open>load_epub\<close> ends with that exception
  and the chapters, the labels, the pages, both indices, the cover, the displayed
  content and the progress table are what they were. An archive that is read but
  gives no non-empty chapter and no cover is not a failure: for every reader,
  whatever it held before, \<open>load_epub\<close> returns normally with an empty chapter
  list and no labels, provided the stored pair \<open>(c, p)\<close> can be read and \<open>p\<close> is an
  index Python accepts for the pages the reader still holds (\<open>p \<ge> -len(self.pages)\<close>
  when there are any; every \<open>p \<ge> 0\<close> is).
\<close>

theorem failed_read_surfaces:
  "(read_epub e path = Inl x \<longrightarrow>
      fst (load_epub e path s) = Raised x
      \<and> chapters (snd (load_epub e path s)) = chapters s
      \<and> chapter_list (snd (load_epub e path s)) = chapter_list s
      \<and> pages (snd (load_epub e path s)) = pages s
      \<and> current_chapter (snd (load_epub e path s)) = current_chapter s
      \<and> current_page (snd (load_epub e path s)) = current_page s
      \<and> cover_data (snd (load_epub e path s)) = cover_data s
      \<and> text_view (snd (load_epub e path s)) = text_view s
      \<and> db (snd (load_epub e path s)) = db s)
   \<and> (read_epub e' path' = Inr book \<and> book_chapters (get_text e') book = []
        \<and> load_progress (db s') (abspath e' path') = Inr (c, p)
        \<and> (pages s' = [] \<or> - int (length (pages s')) \<le> p) \<longrightarrow>
      fst (load_epub e' path' s') = Returned
      \<and> chapters (snd (load_epub e' path' s')) = []
      \<and> chapter_list (snd (load_epub e' path' s')) = [])"
proof -
  have a: "load_epub e path s = (Raised x, s\<lparr>current_book := Some (abspath e path)\<rparr>)"
    if "read_epub e path = Inl x"
    using that by (simp add: load_epub_def)
  have b: "fst (load_epub e' path' s') = Returned
           \<and> chapters (snd (load_epub e' path' s')) = []
           \<and> chapter_list (snd (load_epub e' path' s')) = []"
    if h: "read_epub e' path' = Inr book \<and> book_chapters (get_text e') book = []
           \<and> load_progress (db s') (abspath e' path') = Inr (c, p)
           \<and> (pages s' = [] \<or> - int (length (pages s')) \<le> p)"
  proof -
    let ?s1 = "assemble_book e' book (s'\<lparr>current_book := Some (abspath e' path')\<rparr>)"
    from h have rd: "read_epub e' path' = Inr book"
      and em: "book_chapters (get_text e') book = []"
      and lp: "load_progress (db s') (abspath e' path') = Inr (c, p)"
      and ix: "pages s' = [] \<or> - int (length (pages s')) \<le> p"
      by simp_all
    from lp have av: "available (db s')" by (rule load_progress_available)
    from lp have ci: "sqlite_integer c" and pi: "sqlite_integer p"
      by (rule load_progress_range)+
    from em have ch: "chapters ?s1 = []" by (simp add: assemble_book_fields)
    have pg: "pages ?s1 = pages s'" and d: "db ?s1 = db s'"
      by (simp_all add: assemble_book_fields)
    from lp have l: "load_progress_current ?s1 = Inr (c, p)"
      by (simp only: load_progress_current_assembled)
    let ?s2 = "?s1\<lparr>current_chapter := c, current_page := p, suppress_load := False\<rparr>"
    have "chapters ?s2 = []" using ch by simp
    then have "c < 0 \<or> int (length (chapters ?s2)) \<le> c" by (simp only: list.size) auto
    then have lc: "load_chapter c ?s2 = (Returned, ?s2)"
      by (rule load_chapter_out_of_range)
    let ?s4 = "?s2\<lparr>current_page := min p (int (length (pages ?s2)) - 1)\<rparr>"
    have step: "load_epub e' path' s' = display_page ?s4"
      using l lc by (simp add: load_epub_read [OF rd] restore_progress_def)
    have q1: "pages ?s4 = [] \<or> (- int (length (pages ?s4)) \<le> current_page ?s4
                                    \<and> current_page ?s4 < int (length (pages ?s4)))"
    proof (cases "pages s' = []")
      case True
      then show ?thesis using pg by simp
    next
      case False
      then have len: "0 < int (length (pages s'))" by simp
      from ix False have "- int (length (pages s')) \<le> p" by simp
      with len have "- int (length (pages s')) \<le> min p (int (length (pages s')) - 1)"
        by simp
      moreover have "min p (int (length (pages s')) - 1) < int (length (pages s'))"
        by simp
      ultimately show ?thesis using pg by simp
    qed
    have q2: "available (db ?s4)" using av d by simp
    have q3: "sqlite_integer (current_chapter ?s4)" using ci by simp
    have q4: "sqlite_integer (current_page ?s4)"
    proof (cases "pages s' = []")
      case True
      then have "current_page ?s4 = min p (- 1)" using pg by simp
      moreover have "sqlite_integer (- 1)" by (simp add: sqlite_integer_def)
      ultimately show ?thesis using pi by (simp add: min_def)
    next
      case False
      then have len: "0 \<le> int (length (pages s')) - 1" by (cases "pages s'") simp_all
      have cp: "current_page ?s4 = min p (int (length (pages s')) - 1)" using pg by simp
      show ?thesis
      proof (cases "p \<le> int (length (pages s')) - 1")
        case True
        with cp pi show ?thesis by (simp add: min_def)
      next
        case False
        with cp have eq: "current_page ?s4 = int (length (pages s')) - 1" by (simp add: min_def)
        from False have "int (length (pages s')) - 1 \<le> p" by simp
        with len show ?thesis
          unfolding eq by (rule sqlite_integer_between [OF sqlite_integer_0 pi])
      qed
    qed
    have "fst (load_epub e' path' s') = Returned"
      unfolding step by (rule display_page_returns(1) [OF q1 q2 q3 q4])
    moreover from load_epub_chapters(1) [OF rd, of s'] em
    have "chapters (snd (load_epub e' path' s')) = []" by simp
    moreover have "chapter_list (snd (load_epub e' path' s')) = []"
    proof -
      from em have "\<not> truthy (extract_cover book)" and "nonempty_texts (get_text e') book = []"
        by (simp_all add: book_chapters_def split: if_splits)
      with load_epub_chapters(2) [OF rd, of s'] show ?thesis by simp
    qed
    ultimately show ?thesis by simp
  qed
  from a b show ?thesis by auto
qed

theorem failed_read_surfaces_witness:
  "fst (load_epub broken_env ''book.epub'' (init_reader (table [(''/old.epub'', 1, 2)]))) = Raised EpubException
   \<and> chapters (snd (load_epub broken_env ''book.epub'' (init_reader (table [(''/old.epub'', 1, 2)])))) = []
   \<and> db (snd (load_epub broken_env ''book.epub'' (init_reader (table [(''/old.epub'', 1, 2)]))))
       = table [(''/old.epub'', 1, 2)]
   \<and> fst (load_epub (sample_env []) ''book.epub''
        ((init_reader (table [(''/old.epub'', 1, 2)]))
           \<lparr>chapters := [''abc''], pages := [''abc''], current_book := Some ''/old.epub''\<rparr>)) = Returned
   \<and> chapters (snd (load_epub (sample_env []) ''book.epub''
        ((init_reader (table [(''/old.epub'', 1, 2)]))
           \<lparr>chapters := [''abc''], pages := [''abc''], current_book := Some ''/old.epub''\<rparr>))) = []"
proof -
  let ?s = "init_reader (table [(''/old.epub'', 1, 2)])"
  let ?s' = "(init_reader (table [(''/old.epub'', 1, 2)]))
           \<lparr>chapters := [''abc''], pages := [''abc''], current_book := Some ''/old.epub''\<rparr>"
  have a: "read_epub broken_env ''book.epub'' = Inl EpubException" by (simp add: broken_env_def)
  have b: "read_epub (sample_env []) ''book.epub'' = Inr [] \<and> book_chapters (get_text (sample_env [])) [] = []
           \<and> load_progress (db ?s') (abspath (sample_env []) ''book.epub'') = Inr (0, 0)
           \<and> (pages ?s' = [] \<or> - int (length (pages ?s')) \<le> 0)"
    by (simp add: sample_env_def book_chapters_def nonempty_texts_def extract_cover_def
        init_reader_def table_def load_progress_def)
  have c: "chapters ?s = []" and d: "db ?s = table [(''/old.epub'', 1, 2)]"
    by (simp_all add: init_reader_def)
  note t = failed_read_surfaces [of broken_env "''book.epub''" EpubException ?s
      "sample_env []" "''book.epub''" "[]" ?s' 0 0]
  from t a have "fst (load_epub broken_env ''book.epub'' ?s) = Raised EpubException"
    and "chapters (snd (load_epub broken_env ''book.epub'' ?s)) = chapters ?s"
    and "db (snd (load_epub broken_env ''book.epub'' ?s)) = db ?s"
    by blast+
  moreover from t b have "fst (load_epub (sample_env []) ''book.epub'' ?s') = Returned"
    and "chapters (snd (load_epub (sample_env []) ''book.epub'' ?s')) = []"
    by blast+
  ultimately show ?thesis by (simp only: c d)
qed

text \<open>
  An archive with no item at all: no cover, no chapter, and \<open>load_epub\<close> returns
  normally. And a failed read does not leave the reader as it was: a reader that had
  no book has the path of the unreadable archive as its book afterwards.
\<close>

theorem open_failure_counterexample:
  "fst (load_epub (sample_env []) ''book.epub'' (init_reader (table []))) = Returned
   \<and> chapters (snd (load_epub (sample_env []) ''book.epub'' (init_reader (table [])))) = []
   \<and> extract_cover [] = None
   \<and> fst (load_epub broken_env ''book.epub'' (init_reader (table []))) = Raised EpubException
   \<and> current_book (init_reader (table [])) = None
   \<and> current_book (snd (load_epub broken_env ''book.epub'' (init_reader (table []))))
       = Some ''/book.epub''"
  by (simp add: load_epub_def restore_progress_def assemble_book_def load_progress_current_def
      load_progress_def load_chapter_def display_page_def sample_env_def broken_env_def
      table_def init_reader_def extract_cover_def Let_def)

section \<open>Storage failures\<close>

text \<open>
  Claim C1. When the progress table cannot be used, \<open>load_progress\<close> and
  \<open>save_progress\<close> raise \<open>sqlite3.Error\<close>, and the operation that called them ends
  with that exception: \<open>load_epub\<close> for every archive that can be read;
  \<open>load_chapter\<close> for a valid index with a book loaded, before it has changed the
  reader; \<open>next_page\<close> and \<open>prev_page\<close> whenever they move the page index, after
  the page index and the displayed content were updated, which keep their new values.
\<close>

theorem persistence_failure_raised:
  assumes "\<not> available (db s)"
  shows "load_progress (db s) path = Inl Sqlite3Error
         \<and> save_progress (db s) path c p = Inl Sqlite3Error
         \<and> (read_epub e path = Inr book \<longrightarrow> fst (load_epub e path s) = Raised Sqlite3Error)
         \<and> (\<not> suppress_load s \<and> 0 \<le> index \<and> index < int (length (chapters s)) \<and> truthy (current_book s)
               \<longrightarrow> load_chapter index s = (Raised Sqlite3Error, s))
         \<and> (pages s \<noteq> [] \<and> 0 \<le> current_page s + 1 \<and> current_page s < int (length (pages s)) - 1
              \<and> truthy (current_book s)
               \<longrightarrow> next_page s =
                     (Raised Sqlite3Error,
                      s\<lparr>current_page := current_page s + 1,
                        text_view := PageHtml (replace_newlines (pages s ! nat (current_page s + 1)))
                                       (current_page s + 2) (int (length (pages s)))\<rparr>))
         \<and> (pages s \<noteq> [] \<and> 0 < current_page s \<and> current_page s \<le> int (length (pages s))
              \<and> truthy (current_book s)
               \<longrightarrow> prev_page s =
                     (Raised Sqlite3Error,
                      s\<lparr>current_page := current_page s - 1,
                        text_view := PageHtml (replace_newlines (pages s ! nat (current_page s - 1)))
                                       (current_page s) (int (length (pages s)))\<rparr>))"
proof -
  have 1: "load_progress (db s) path = Inl Sqlite3Error"
    using assms by (simp add: load_progress_def)
  have 2: "save_progress (db s) path c p = Inl Sqlite3Error"
    using assms by (simp add: save_progress_def)
  have 3: "fst (load_epub e path s) = Raised Sqlite3Error" if rd: "read_epub e path = Inr book"
  proof -
    have "load_progress_current (assemble_book e book (s\<lparr>current_book := Some (abspath e path)\<rparr>))
            = Inl Sqlite3Error"
      using assms by (simp add: load_progress_current_assembled load_progress_def)
    with rd show ?thesis by (simp add: load_epub_def restore_progress_def)
  qed
  have 4: "load_chapter index s = (Raised Sqlite3Error, s)"
    if "\<not> suppress_load s \<and> 0 \<le> index \<and> index < int (length (chapters s)) \<and> truthy (current_book s)"
    using that assms by (simp add: load_chapter_def save_progress_def)
  have 5: "next_page s =
             (Raised Sqlite3Error,
              s\<lparr>current_page := current_page s + 1,
                text_view := PageHtml (replace_newlines (pages s ! nat (current_page s + 1)))
                               (current_page s + 2) (int (length (pages s)))\<rparr>)"
    if h: "pages s \<noteq> [] \<and> 0 \<le> current_page s + 1 \<and> current_page s < int (length (pages s)) - 1
           \<and> truthy (current_book s)"
  proof -
    let ?s' = "s\<lparr>current_page := current_page s + 1\<rparr>"
    from h have n: "next_page s = display_page ?s'" by (simp add: next_page_def)
    have "display_page ?s' =
            (Raised Sqlite3Error,
             ?s'\<lparr>text_view := PageHtml (replace_newlines (pages ?s' ! nat (current_page ?s')))
                               (current_page ?s' + 1) (int (length (pages ?s')))\<rparr>)"
      using h assms by (intro display_page_unusable) simp_all
    with n show ?thesis by simp
  qed
  have 6: "prev_page s =
             (Raised Sqlite3Error,
              s\<lparr>current_page := current_page s - 1,
                text_view := PageHtml (replace_newlines (pages s ! nat (current_page s - 1)))
                               (current_page s) (int (length (pages s)))\<rparr>)"
    if h: "pages s \<noteq> [] \<and> 0 < current_page s \<and> current_page s \<le> int (length (pages s))
           \<and> truthy (current_book s)"
  proof -
    let ?s' = "s\<lparr>current_page := current_page s - 1\<rparr>"
    from h have n: "prev_page s = display_page ?s'" by (simp add: prev_page_def)
    have "display_page ?s' =
            (Raised Sqlite3Error,
             ?s'\<lparr>text_view := PageHtml (replace_newlines (pages ?s' ! nat (current_page ?s')))
                               (current_page ?s' + 1) (int (length (pages ?s')))\<rparr>)"
      using h assms by (intro display_page_unusable) simp_all
    with n show ?thesis by simp
  qed
  from 1 2 3 4 5 6 show ?thesis by blast
qed

theorem persistence_failure_raised_witness:
  "load_progress (unusable []) ''/book.epub'' = Inl Sqlite3Error
   \<and> fst (load_epub (sample_env [text_item ''a.xhtml'' ''One'']) ''book.epub''
        ((init_reader (unusable []))
           \<lparr>chapters := [''abc''], pages := [''a'', ''b'', ''c''], current_page := 1,
            current_book := Some ''/book.epub''\<rparr>)) = Raised Sqlite3Error
   \<and> fst (load_chapter 0
        ((init_reader (unusable []))
           \<lparr>chapters := [''abc''], pages := [''a'', ''b'', ''c''], current_page := 1,
            current_book := Some ''/book.epub''\<rparr>)) = Raised Sqlite3Error
   \<and> fst (next_page
        ((init_reader (unusable []))
           \<lparr>chapters := [''abc''], pages := [''a'', ''b'', ''c''], current_page := 1,
            current_book := Some ''/book.epub''\<rparr>)) = Raised Sqlite3Error
   \<and> current_page (snd (next_page
        ((init_reader (unusable []))
           \<lparr>chapters := [''abc''], pages := [''a'', ''b'', ''c''], current_page := 1,
            current_book := Some ''/book.epub''\<rparr>))) = 2
   \<and> fst (prev_page
        ((init_reader (unusable []))
           \<lparr>chapters := [''abc''], pages := [''a'', ''b'', ''c''], current_page := 1,
            current_book := Some ''/book.epub''\<rparr>)) = Raised Sqlite3Error
   \<and> current_page (snd (prev_page
        ((init_reader (unusable []))
           \<lparr>chapters := [''abc''], pages := [''a'', ''b'', ''c''], current_page := 1,
            current_book := Some ''/book.epub''\<rparr>))) = 0"
proof -
  let ?book = "[text_item ''a.xhtml'' ''One'']"
  let ?s = "(init_reader (unusable []))
           \<lparr>chapters := [''abc''], pages := [''a'', ''b'', ''c''], current_page := 1,
            current_book := Some ''/book.epub''\<rparr>"
  have d: "db ?s = unusable []" by (simp add: init_reader_def)
  have na: "\<not> available (db ?s)" by (simp add: init_reader_def unusable_def)
  have rd: "read_epub (sample_env ?book) ''book.epub'' = Inr ?book" by (simp add: sample_env_def)
  have h4: "\<not> suppress_load ?s \<and> 0 \<le> (0::int) \<and> 0 < int (length (chapters ?s)) \<and> truthy (current_book ?s)"
    by (simp add: init_reader_def)
  have h5: "pages ?s \<noteq> [] \<and> 0 \<le> current_page ?s + 1 \<and> current_page ?s < int (length (pages ?s)) - 1
            \<and> truthy (current_book ?s)"
    by simp
  have h6: "pages ?s \<noteq> [] \<and> 0 < current_page ?s \<and> current_page ?s \<le> int (length (pages ?s))
            \<and> truthy (current_book ?s)"
    by simp
  note u = persistence_failure_raised [of ?s "''/book.epub''" 0 0 "sample_env ?book" ?book 0, OF na]
  note t = persistence_failure_raised [of ?s "''book.epub''" 0 0 "sample_env ?book" ?book 0, OF na]
  from u d have 1: "load_progress (unusable []) ''/book.epub'' = Inl Sqlite3Error" by simp
  from t rd have 3: "fst (load_epub (sample_env ?book) ''book.epub'' ?s) = Raised Sqlite3Error" by blast
  from t h4 have 4: "load_chapter 0 ?s = (Raised Sqlite3Error, ?s)" by blast
  from t h5 have 5: "next_page ?s =
      (Raised Sqlite3Error,
       ?s\<lparr>current_page := current_page ?s + 1,
          text_view := PageHtml (replace_newlines (pages ?s ! nat (current_page ?s + 1)))
                         (current_page ?s + 2) (int (length (pages ?s)))\<rparr>)" by blast
  from t h6 have 6: "prev_page ?s =
      (Raised Sqlite3Error,
       ?s\<lparr>current_page := current_page ?s - 1,
          text_view := PageHtml (replace_newlines (pages ?s ! nat (current_page ?s - 1)))
                         (current_page ?s) (int (length (pages ?s)))\<rparr>)" by blast
  have f4: "fst (load_chapter 0 ?s) = Raised Sqlite3Error" by (simp only: 4 fst_conv)
  have f5: "fst (next_page ?s) = Raised Sqlite3Error" by (simp only: 5 fst_conv)
  have g5: "current_page (snd (next_page ?s)) = 2" by (simp only: 5 snd_conv) simp
  have f6: "fst (prev_page ?s) = Raised Sqlite3Error" by (simp only: 6 fst_conv)
  have g6: "current_page (snd (prev_page ?s)) = 0" by (simp only: 6 snd_conv) simp
  from 1 3 f4 f5 g5 f6 g6 show ?thesis by blast
qed

text \<open>
  With an unusable table, opening a readable book ends with the exception, and the
  read of the table is not answered with \<open>(0, 0)\<close>.
\<close>

theorem persistence_failure_counterexample:
  "fst (load_epub (sample_env [text_item ''a.xhtml'' ''One'']) ''book.epub'' (init_reader (unusable [])))
     = Raised Sqlite3Error
   \<and> load_progress (unusable []) ''/book.epub'' \<noteq> Inr (0, 0)"
  by (simp add: load_epub_def restore_progress_def assemble_book_def load_progress_current_def
      load_progress_def sample_env_def unusable_def init_reader_def text_item_def
      extract_cover_def Let_def)

end
